theory Spec2Isabelle
  imports Complex_Main "HOL-Library.Word"
begin

unbundle bit_operations_syntax

section \<open>Text: characters, stripping, lines\<close>

text \<open>
  The log file is opened in text mode as UTF-8. The model works on ASCII text, where the
  decoded string and the bytes of the file coincide, so that a byte offset is an index
  into the string. \<open>py_isspace\<close> is \<open>str.isspace\<close> on the ASCII range (it is what
  \<open>str.strip()\<close> and the pattern's \<open>\s\<close> use), \<open>py_isdigit\<close> is the pattern's
  \<open>\d\<close> on the ASCII range.
\<close>

definition py_isspace :: "char \<Rightarrow> bool" where
  "py_isspace c = (let n = (of_char c :: nat) in (9 \<le> n \<and> n \<le> 13) \<or> (28 \<le> n \<and> n \<le> 32))"

definition py_isdigit :: "char \<Rightarrow> bool" where
  "py_isdigit c = (let n = (of_char c :: nat) in 48 \<le> n \<and> n \<le> 57)"

definition strip :: "string \<Rightarrow> string" where
  "strip s = rev (dropWhile py_isspace (rev (dropWhile py_isspace s)))"

text \<open>
  Iterating a text file yields its lines; with universal newlines a line ends at
  \<open>\n\<close>, \<open>\r\<close> or \<open>\r\n\<close>, each handed over as \<open>\n\<close>. \<open>cur\<close> holds the
  characters of the line being read, latest first.
\<close>

fun readlines :: "string \<Rightarrow> string \<Rightarrow> string list" where
  "readlines cur [] = (if cur = [] then [] else [rev cur])"
| "readlines cur (c # cs) =
     (if c = CHR 0x0A then rev (CHR 0x0A # cur) # readlines [] cs
      else if c = CHR 0x0D then
        (case cs of
           d # ds \<Rightarrow> if d = CHR 0x0A then rev (CHR 0x0A # cur) # readlines [] ds
                     else rev (CHR 0x0A # cur) # readlines [] cs
         | [] \<Rightarrow> rev (CHR 0x0A # cur) # readlines [] cs)
      else readlines (c # cur) cs)"

section \<open>The line grammar\<close>

text \<open>
  \<open>LOG_PATTERN\<close> is a sequence of literals and of repetitions of one character class,
  some of them named groups. \<open>Rep g cls m greedy\<close> is the class \<open>cls\<close> repeated at
  least \<open>m\<close> times, greedily or lazily, captured under the name \<open>g\<close> if there is one.
  \<open>re_match\<close> is \<open>Pattern.match\<close> on such a pattern: a backtracking match anchored at
  the start of the string, a greedy repetition trying its longest run first, a lazy one
  its shortest; \<open>None\<close> is Python's \<open>None\<close> (no match), \<open>Some\<close> the groups.

  \<open>rep greedy cls m k acc s\<close> matches the repetition on \<open>s\<close>: \<open>acc\<close> holds the
  characters taken so far, latest first, \<open>m\<close> how many more are required, and \<open>k\<close>
  matches the rest of the pattern, given what the repetition took and what is left.
\<close>

datatype item = Lit string | Rep "string option" "char \<Rightarrow> bool" nat bool

fun rep :: "bool \<Rightarrow> (char \<Rightarrow> bool) \<Rightarrow> nat \<Rightarrow> (string \<Rightarrow> string \<Rightarrow> 'a option) \<Rightarrow> string \<Rightarrow> string \<Rightarrow> 'a option" where
  "rep greedy cls m k acc [] = (if m = 0 then k acc [] else None)"
| "rep greedy cls m k acc (c # cs) =
     (if cls c then
        (if greedy then
           (case rep greedy cls (m - 1) k (c # acc) cs of
              Some r \<Rightarrow> Some r
            | None \<Rightarrow> if m = 0 then k acc (c # cs) else None)
         else
           (case (if m = 0 then k acc (c # cs) else None) of
              Some r \<Rightarrow> Some r
            | None \<Rightarrow> rep greedy cls (m - 1) k (c # acc) cs))
      else if m = 0 then k acc (c # cs) else None)"

definition add_group :: "string option \<Rightarrow> string \<Rightarrow> (string \<times> string) list \<Rightarrow> (string \<times> string) list" where
  "add_group g v caps = (case g of None \<Rightarrow> caps | Some name \<Rightarrow> (name, v) # caps)"

fun strip_prefix :: "string \<Rightarrow> string \<Rightarrow> string option" where
  "strip_prefix [] s = Some s"
| "strip_prefix (c # l) [] = None"
| "strip_prefix (c # l) (d # s) = (if c = d then strip_prefix l s else None)"

primrec re_match :: "item list \<Rightarrow> string \<Rightarrow> (string \<times> string) list option" where
  "re_match [] s = Some []"
| "re_match (p # ps) s =
     (case p of
        Lit l \<Rightarrow> (case strip_prefix l s of None \<Rightarrow> None | Some rest \<Rightarrow> re_match ps rest)
      | Rep g cls m greedy \<Rightarrow>
          rep greedy cls m
            (\<lambda>acc rest. case re_match ps rest of
                           None \<Rightarrow> None
                         | Some caps \<Rightarrow> Some (add_group g (rev acc) caps)) [] s)"

definition ws :: item where
  "ws = Rep None py_isspace 0 True"

definition LOG_PATTERN :: "item list" where
  "LOG_PATTERN =
     [Lit ''['', Rep (Some ''time_local'') (\<lambda>c. c \<noteq> CHR '']'') 1 True, Lit '']'',
      ws, Lit ''|'', ws, Rep (Some ''host'') (\<lambda>c. c \<noteq> CHR ''|'') 1 True,
      ws, Lit ''|'', ws, Rep (Some ''remote_addr'') (\<lambda>c. c \<noteq> CHR ''|'') 1 True,
      ws, Lit ''|'', ws, Rep (Some ''remote_user'') (\<lambda>c. c \<noteq> CHR ''|'') 1 True,
      ws, Lit ''|'', ws,
      Lit [CHR 0x22], Rep (Some ''request'') (\<lambda>c. c \<noteq> CHR 0x0A) 0 False, Lit [CHR 0x22], ws,
      Lit (''Status='' @ [CHR 0x22]), Rep (Some ''status'') py_isdigit 1 True, Lit [CHR 0x22], ws,
      Lit (''BodyBytesSent='' @ [CHR 0x22]),
      Rep (Some ''body_bytes_sent'') (\<lambda>c. py_isdigit c \<or> c = CHR ''-'') 1 True, Lit [CHR 0x22], ws,
      Lit (''Referer='' @ [CHR 0x22]),
      Rep (Some ''http_referer'') (\<lambda>c. c \<noteq> CHR 0x22) 0 True, Lit [CHR 0x22], ws,
      Lit (''UserAgent='' @ [CHR 0x22]),
      Rep (Some ''http_user_agent'') (\<lambda>c. c \<noteq> CHR 0x22) 0 True, Lit [CHR 0x22], ws,
      Lit (''RequestTime='' @ [CHR 0x22]),
      Rep (Some ''request_time'') (\<lambda>c. py_isdigit c \<or> c = CHR ''.'' \<or> c = CHR ''-'') 1 True,
      Lit [CHR 0x22], ws,
      Lit (''UpstreamResponseTime='' @ [CHR 0x22]),
      Rep (Some ''upstream_response_time'') (\<lambda>c. py_isdigit c \<or> c = CHR ''.'' \<or> c = CHR ''-'') 1 True,
      Lit [CHR 0x22], ws,
      Lit (''GzipRatio='' @ [CHR 0x22]),
      Rep (Some ''gzip_ratio'') (\<lambda>c. py_isdigit c \<or> c = CHR ''.'' \<or> c = CHR ''-'') 1 True,
      Lit [CHR 0x22]]"

section \<open>Errors and conversions\<close>

text \<open>
  Exceptions are values: \<open>Inl e\<close> is "raises \<open>e\<close>". \<open>StoreError\<close> stands for any
  \<open>psycopg2.Error\<close> raised by the connection.
\<close>

datatype error = ValueError | KeyError string | TypeError | FileNotFoundError | StoreError

definition bind_res :: "error + 'a \<Rightarrow> ('a \<Rightarrow> error + 'b) \<Rightarrow> error + 'b" where
  "bind_res m f = (case m of Inl e \<Rightarrow> Inl e | Inr x \<Rightarrow> f x)"

definition digits_value :: "string \<Rightarrow> nat" where
  "digits_value ds = foldl (\<lambda>a c. 10 * a + (of_char c - 48)) 0 ds"

definition split_sign :: "string \<Rightarrow> bool \<times> string" where
  "split_sign s =
     (case s of
        [] \<Rightarrow> (False, [])
      | c # r \<Rightarrow> if c = CHR ''-'' then (True, r) else if c = CHR ''+'' then (False, r) else (False, s))"

text \<open>
  \<open>int(s)\<close> and \<open>float(s)\<close> on a string: an optional sign, then digits (for a float,
  with at most one point and a digit on one side of it at least); anything else raises
  \<open>ValueError\<close>. The built-ins also accept surrounding whitespace, underscores between
  digits, exponents, \<open>inf\<close> and \<open>nan\<close>; none of these can occur in a group of
  \<open>LOG_PATTERN\<close> that is converted, so the model leaves them out, as it does the
  limit on the number of digits that recent versions of \<open>int\<close> have. A float is
  modelled by the exact rational value of its literal (the rounding to a double is not
  modelled).
\<close>

definition py_int :: "string \<Rightarrow> error + int" where
  "py_int s =
     (case split_sign s of (neg, ds) \<Rightarrow>
        if ds \<noteq> [] \<and> list_all py_isdigit ds
        then Inr (if neg then - int (digits_value ds) else int (digits_value ds))
        else Inl ValueError)"

definition py_float :: "string \<Rightarrow> error + rat" where
  "py_float s =
     (case split_sign s of (neg, ds) \<Rightarrow>
        (let ip = takeWhile py_isdigit ds; r = dropWhile py_isdigit ds;
             fp = (case r of [] \<Rightarrow> [] | c # t \<Rightarrow> t);
             ok = ((r = [] \<and> ip \<noteq> []) \<or>
                   (r \<noteq> [] \<and> hd r = CHR ''.'' \<and> list_all py_isdigit fp \<and> (ip \<noteq> [] \<or> fp \<noteq> [])));
             v = of_nat (digits_value (ip @ fp)) / of_nat (10 ^ length fp)
         in if ok then Inr (if neg then - v else v) else Inl ValueError))"

text \<open>The argument is \<open>data.get(k)\<close>: \<open>None\<close> when the key is absent.\<close>

definition to_nullable_float :: "string option \<Rightarrow> error + rat option" where
  "to_nullable_float v =
     (case v of
        None \<Rightarrow> Inr None
      | Some s \<Rightarrow> if s \<noteq> [] \<and> s \<noteq> ''-'' then bind_res (py_float s) (\<lambda>x. Inr (Some x)) else Inr None)"

definition to_nullable_int :: "string option \<Rightarrow> error + int option" where
  "to_nullable_int v =
     (case v of
        None \<Rightarrow> Inr None
      | Some s \<Rightarrow> if s \<noteq> [] \<and> s \<noteq> ''-'' then bind_res (py_int s) (\<lambda>x. Inr (Some x)) else Inr None)"

text \<open>\<open>x or 0\<close>: the default replaces \<open>None\<close> and the falsy number zero alike.\<close>

definition or_zero :: "'a::zero option \<Rightarrow> 'a" where
  "or_zero x = (case x of None \<Rightarrow> 0 | Some n \<Rightarrow> if n = 0 then 0 else n)"

section \<open>SHA-1\<close>

text \<open>
  \<open>hashlib.sha1(b).hexdigest()\<close> (FIPS 180-4) on the bytes of an ASCII string, on
  32-bit words: padding to a multiple of 64 bytes, 80 rounds for each block of 16 words.
\<close>

type_synonym u32 = "32 word"

definition rotl :: "nat \<Rightarrow> u32 \<Rightarrow> u32" where
  "rotl n x = (push_bit n x) OR (drop_bit (32 - n) x)"

definition sha1_pad :: "nat list \<Rightarrow> nat list" where
  "sha1_pad bs =
     (let l = length bs; z = (119 - l mod 64) mod 64
      in bs @ [128] @ replicate z 0 @ map (\<lambda>i. (8 * l) div 2 ^ (8 * (7 - i)) mod 256) [0..<8])"

fun be_words :: "nat list \<Rightarrow> u32 list" where
  "be_words (a # b # c # d # r) = word_of_nat (((a * 256 + b) * 256 + c) * 256 + d) # be_words r"
| "be_words _ = []"

fun blocks :: "nat \<Rightarrow> 'a list \<Rightarrow> 'a list list" where
  "blocks 0 xs = []"
| "blocks (Suc n) xs = (if xs = [] then [] else take 16 xs # blocks n (drop 16 xs))"

text \<open>The message schedule, latest word first: \<open>W t = rotl 1 (W (t-3) XOR W (t-8) XOR W (t-14) XOR W (t-16))\<close>.\<close>

fun expand :: "nat \<Rightarrow> u32 list \<Rightarrow> u32 list" where
  "expand 0 w = w"
| "expand (Suc n) w = expand n (rotl 1 (w ! 2 XOR w ! 7 XOR w ! 13 XOR w ! 15) # w)"

definition sha1_f :: "nat \<Rightarrow> u32 \<Rightarrow> u32 \<Rightarrow> u32 \<Rightarrow> u32" where
  "sha1_f t b c d =
     (if t < 20 then (b AND c) OR (NOT b AND d)
      else if t < 40 then b XOR c XOR d
      else if t < 60 then (b AND c) OR (b AND d) OR (c AND d)
      else b XOR c XOR d)"

definition sha1_k :: "nat \<Rightarrow> u32" where
  "sha1_k t = (if t < 20 then 0x5A827999 else if t < 40 then 0x6ED9EBA1
               else if t < 60 then 0x8F1BBCDC else 0xCA62C1D6)"

type_synonym sha1_state = "u32 \<times> u32 \<times> u32 \<times> u32 \<times> u32"

fun rounds :: "nat \<Rightarrow> u32 list \<Rightarrow> sha1_state \<Rightarrow> sha1_state" where
  "rounds t [] s = s"
| "rounds t (w # r) (a, b, c, d, e) =
     rounds (Suc t) r (rotl 5 a + sha1_f t b c d + e + sha1_k t + w, a, rotl 30 b, c, d)"

definition compress :: "sha1_state \<Rightarrow> u32 list \<Rightarrow> sha1_state" where
  "compress h blk =
     (case h of (h0, h1, h2, h3, h4) \<Rightarrow>
        (case rounds 0 (rev (expand 64 (rev blk))) h of (a, b, c, d, e) \<Rightarrow>
           (h0 + a, h1 + b, h2 + c, h3 + d, h4 + e)))"

definition sha1_init :: sha1_state where
  "sha1_init = (0x67452301, 0xEFCDAB89, 0x98BADCFE, 0x10325476, 0xC3D2E1F0)"

definition hex_digit :: "nat \<Rightarrow> char" where
  "hex_digit n = ''0123456789abcdef'' ! (n mod 16)"

definition hex32 :: "u32 \<Rightarrow> string" where
  "hex32 w = map (\<lambda>i. hex_digit (unat w div 16 ^ (7 - i))) [0..<8]"

definition sha1_hexdigest :: "string \<Rightarrow> string" where
  "sha1_hexdigest s =
     (let w = be_words (sha1_pad (map of_char s));
          h = foldl compress sha1_init (blocks (length w) w)
      in case h of (a, b, c, d, e) \<Rightarrow> hex32 a @ hex32 b @ hex32 c @ hex32 d @ hex32 e)"

section \<open>Records and the store\<close>

text \<open>
  A row of \<open>nginx_logs\<close>. \<open>datetime.strptime\<close> with the fixed format is a parameter
  \<open>strptime\<close> of the model, \<open>None\<close> when it raises; \<open>'ts\<close> is the type of its results.
\<close>

record 'ts log_row =
  id :: string
  time_local :: "'ts option"
  host :: string
  remote_addr :: string
  remote_user :: "string option"
  request :: "string option"
  status :: "int option"
  body_bytes_sent :: int
  http_referer :: "string option"
  http_user_agent :: "string option"
  request_time :: rat
  upstream_response_time :: rat
  gzip_ratio :: rat

text \<open>\<open>data[k]\<close> on the group dictionary, as the parameters of \<open>cur.execute\<close> read it.\<close>

definition getitem :: "(string \<times> string) list \<Rightarrow> string \<Rightarrow> error + string" where
  "getitem d k = (case map_of d k of None \<Rightarrow> Inl (KeyError k) | Some v \<Rightarrow> Inr v)"

text \<open>\<open>if data.get(fld) == '-': data[fld] = None\<close>, then \<open>data[fld]\<close>.\<close>

definition dash_to_none :: "(string \<times> string) list \<Rightarrow> string \<Rightarrow> error + string option" where
  "dash_to_none d fld =
     (if map_of d fld = Some ''-'' then Inr None else bind_res (getitem d fld) (\<lambda>v. Inr (Some v)))"

text \<open>
  The body of the loop of \<open>process_file\<close> from the match on: the row that
  \<open>cur.execute\<close> receives for the stripped line \<open>line\<close> and its groups \<open>d\<close>.
\<close>

definition make_row :: "(string \<Rightarrow> 'ts option) \<Rightarrow> string \<Rightarrow> (string \<times> string) list \<Rightarrow> error + 'ts log_row" where
  "make_row strptime line d =
     (let t = (case map_of d ''time_local'' of None \<Rightarrow> None | Some v \<Rightarrow> strptime v);
          uid = sha1_hexdigest line
      in bind_res (to_nullable_int (map_of d ''status'')) (\<lambda>st.
         bind_res (to_nullable_int (map_of d ''body_bytes_sent'')) (\<lambda>bbs.
         bind_res (to_nullable_float (map_of d ''request_time'')) (\<lambda>rt.
         bind_res (to_nullable_float (map_of d ''upstream_response_time'')) (\<lambda>urt.
         bind_res (to_nullable_float (map_of d ''gzip_ratio'')) (\<lambda>gz.
         bind_res (dash_to_none d ''remote_user'') (\<lambda>ru.
         bind_res (dash_to_none d ''http_referer'') (\<lambda>rf.
         bind_res (dash_to_none d ''http_user_agent'') (\<lambda>ua.
         bind_res (dash_to_none d ''request'') (\<lambda>rq.
         bind_res (getitem d ''host'') (\<lambda>h.
         bind_res (getitem d ''remote_addr'') (\<lambda>ra.
           Inr \<lparr>id = uid, time_local = t, host = h, remote_addr = ra, remote_user = ru,
                request = rq, status = st, body_bytes_sent = or_zero bbs, http_referer = rf,
                http_user_agent = ua, request_time = or_zero rt,
                upstream_response_time = or_zero urt, gzip_ratio = or_zero gz\<rparr>))))))))))))"

text \<open>
  One line as the loop reads it: \<open>Inr None\<close> is \<open>continue\<close> (a blank or unmatched
  line), \<open>Inr (Some row)\<close> the row to insert, \<open>Inl e\<close> an exception leaving the loop.
\<close>

definition line_record :: "(string \<Rightarrow> 'ts option) \<Rightarrow> string \<Rightarrow> error + 'ts log_row option" where
  "line_record strptime raw =
     (let line = strip raw
      in if line = [] then Inr None
         else case re_match LOG_PATTERN line of
                None \<Rightarrow> Inr None
              | Some d \<Rightarrow> bind_res (make_row strptime line d) (\<lambda>row. Inr (Some row)))"

text \<open>
  The connection: \<open>table\<close> is what is committed, \<open>txn\<close> the table as the open
  transaction sees it, \<open>budget\<close> the number of statements the server will still answer
  (\<open>None\<close>: it never fails); with \<open>Some 0\<close> the next statement raises. The
  server's checks of the column types are not modelled.
\<close>

record 'ts conn =
  table :: "'ts log_row list"
  txn :: "'ts log_row list"
  budget :: "nat option"

definition spend :: "nat option \<Rightarrow> nat option" where
  "spend b = map_option (\<lambda>n. n - 1) b"

text \<open>\<open>INSERT ... ON CONFLICT (id) DO NOTHING\<close>.\<close>

definition insert_ignore :: "'ts log_row \<Rightarrow> 'ts log_row list \<Rightarrow> 'ts log_row list" where
  "insert_ignore row rows = (if id row \<in> set (map id rows) then rows else rows @ [row])"

definition execute_insert :: "'ts log_row \<Rightarrow> 'ts conn \<Rightarrow> (error + unit) \<times> 'ts conn" where
  "execute_insert row c =
     (if budget c = Some 0 then (Inl StoreError, c)
      else (Inr (), c\<lparr>txn := insert_ignore row (txn c), budget := spend (budget c)\<rparr>))"

definition commit :: "'ts conn \<Rightarrow> (error + unit) \<times> 'ts conn" where
  "commit c =
     (if budget c = Some 0 then (Inl StoreError, c)
      else (Inr (), c\<lparr>table := txn c, budget := spend (budget c)\<rparr>))"

section \<open>process_file\<close>

fun insert_lines :: "(string \<Rightarrow> 'ts option) \<Rightarrow> string list \<Rightarrow> 'ts conn \<Rightarrow> (error + unit) \<times> 'ts conn" where
  "insert_lines strptime [] c = (Inr (), c)"
| "insert_lines strptime (l # ls) c =
     (case line_record strptime l of
        Inl e \<Rightarrow> (Inl e, c)
      | Inr None \<Rightarrow> insert_lines strptime ls c
      | Inr (Some row) \<Rightarrow>
          (case execute_insert row c of
             (Inl e, c') \<Rightarrow> (Inl e, c')
           | (Inr u, c') \<Rightarrow> insert_lines strptime ls c'))"

text \<open>
  \<open>f.seek(start_offset)\<close> raises \<open>ValueError\<close> on a negative offset; the loop reads from
  there to the end of the file; \<open>f.tell()\<close> is then the end of the file, or the offset
  sought when that lies beyond the end (nothing was read). Offsets are file positions,
  below \<open>2 ^ 63\<close>.
\<close>

definition process_file :: "(string \<Rightarrow> 'ts option) \<Rightarrow> string \<Rightarrow> int \<Rightarrow> 'ts conn \<Rightarrow> (error + int) \<times> 'ts conn" where
  "process_file strptime content start_offset c =
     (if start_offset < 0 then (Inl ValueError, c)
      else case insert_lines strptime (readlines [] (drop (nat start_offset) content)) c of
             (Inl e, c') \<Rightarrow> (Inl e, c')
           | (Inr u, c') \<Rightarrow>
               (let new_offset = max start_offset (int (length content))
                in case commit c' of
                     (Inl e, c2) \<Rightarrow> (Inl e, c2)
                   | (Inr u, c2) \<Rightarrow> (Inr new_offset, c2)))"

section \<open>Progress state\<close>

text \<open>
  The value \<open>json.loads\<close> returns. A float is given by its exact value; the
  dictionary of an object is an association list read with \<open>map_of\<close>.
\<close>

datatype json =
  JNull | JBool bool | JInt int | JFloat rat | JStr string | JArr "json list" | JObj "(string \<times> json) list"

text \<open>
  The state file as \<open>load_state\<close> meets it: \<open>Absent\<close> (\<open>exists()\<close> is false),
  \<open>Corrupt\<close> (reading or \<open>json.loads\<close> raises: the empty file, a truncated text, any
  text that is not JSON), or \<open>Doc j\<close>, a text that \<open>json.loads\<close> parses to \<open>j\<close>.
\<close>

datatype sfile = Absent | Corrupt | Doc json

definition fresh_state :: json where
  "fresh_state = JObj [(''inode'', JNull), (''offset'', JInt 0)]"

definition load_state :: "sfile \<Rightarrow> json" where
  "load_state f = (case f of Absent \<Rightarrow> fresh_state | Corrupt \<Rightarrow> fresh_state | Doc j \<Rightarrow> j)"

text \<open>
  \<open>Path.write_text\<close> opens the file for writing, which truncates it, then writes the
  text and closes: \<open>write_text_steps\<close> lists the contents the file goes through, and
  \<open>save_state\<close> leaves the last of them.
\<close>

definition write_text_steps :: "json \<Rightarrow> sfile list" where
  "write_text_steps state = [Corrupt, Doc state]"

definition save_state :: "json \<Rightarrow> sfile" where
  "save_state state = last (write_text_steps state)"

text \<open>\<open>state[k]\<close> and \<open>state[k] = v\<close> on whatever \<open>load_state\<close> returned.\<close>

definition subscript :: "json \<Rightarrow> string \<Rightarrow> error + json" where
  "subscript j k =
     (case j of
        JObj kvs \<Rightarrow> (case map_of kvs k of None \<Rightarrow> Inl (KeyError k) | Some v \<Rightarrow> Inr v)
      | _ \<Rightarrow> Inl TypeError)"

fun dict_set :: "string \<Rightarrow> json \<Rightarrow> (string \<times> json) list \<Rightarrow> (string \<times> json) list" where
  "dict_set k v [] = [(k, v)]"
| "dict_set k v ((k', x) # kvs) = (if k' = k then (k, v) # kvs else (k', x) # dict_set k v kvs)"

definition setitem :: "json \<Rightarrow> string \<Rightarrow> json \<Rightarrow> error + json" where
  "setitem j k v = (case j of JObj kvs \<Rightarrow> Inr (JObj (dict_set k v kvs)) | _ \<Rightarrow> Inl TypeError)"




section \<open>File selection\<close>

text \<open>A file that \<open>glob.glob(LOG_GLOB)\<close> lists, with what \<open>stat\<close> and reading give.\<close>

record logfile =
  path :: string
  inode :: int
  mtime :: rat
  content :: string




section \<open>main\<close>









section \<open>What a pass writes\<close>

text \<open>
  The rows that a run of the loop over the lines \<open>ls\<close> hands to \<open>cur.execute\<close>,
  in order, and the table after inserting a list of rows one by one.
\<close>

definition emitted :: "(string \<Rightarrow> 'ts option) \<Rightarrow> string list \<Rightarrow> 'ts log_row list" where
  "emitted strptime ls =
     List.map_filter (\<lambda>l. case line_record strptime l of Inr (Some row) \<Rightarrow> Some row | _ \<Rightarrow> None) ls"

definition insert_all :: "'ts log_row list \<Rightarrow> 'ts log_row list \<Rightarrow> 'ts log_row list" where
  "insert_all rows new = foldl (\<lambda>acc r. insert_ignore r acc) rows new"

section \<open>Reading the pattern\<close>

text \<open>
  The names of the groups of a pattern, in order, and a test used to show that a string
  cannot match: \<open>scan l cls s\<close> holds when \<open>s\<close> contains \<open>l\<close> followed by a
  character of the class \<open>cls\<close>.
\<close>

fun group_names :: "item list \<Rightarrow> string list" where
  "group_names [] = []"
| "group_names (Rep (Some g) cls m gr # ps) = g # group_names ps"
| "group_names (p # ps) = group_names ps"

fun scan :: "string \<Rightarrow> (char \<Rightarrow> bool) \<Rightarrow> string \<Rightarrow> bool" where
  "scan l cls [] = False"
| "scan l cls (c # cs) =
     ((case strip_prefix l (c # cs) of Some (x # r) \<Rightarrow> cls x | _ \<Rightarrow> False) \<or> scan l cls cs)"

section \<open>Sample input\<close>

text \<open>
  A line in the layout that \<open>LOG_PATTERN\<close> is written for, from the values of its
  twelve fields, ended by a newline as the file holds it. \<open>line_ok\<close> is the sample
  line of the format; the other lines differ from it in one field.
  \<open>never_parses\<close> is a \<open>strptime\<close> that always raises, to run the model with.
\<close>

definition kv :: "string \<Rightarrow> string \<Rightarrow> string" where
  "kv k v = k @ ''='' @ [CHR 0x22] @ v @ [CHR 0x22]"

definition log_line :: "string list \<Rightarrow> string" where
  "log_line fs =
     ''['' @ fs ! 0 @ ''] | '' @ fs ! 1 @ '' | '' @ fs ! 2 @ '' | '' @ fs ! 3 @ '' | '' @
     [CHR 0x22] @ fs ! 4 @ [CHR 0x22] @ '' '' @ kv ''Status'' (fs ! 5) @ '' '' @
     kv ''BodyBytesSent'' (fs ! 6) @ '' '' @ kv ''Referer'' (fs ! 7) @ '' '' @
     kv ''UserAgent'' (fs ! 8) @ '' '' @ kv ''RequestTime'' (fs ! 9) @ '' '' @
     kv ''UpstreamResponseTime'' (fs ! 10) @ '' '' @ kv ''GzipRatio'' (fs ! 11) @ [CHR 0x0A]"

definition line_ok :: string where
  "line_ok = log_line [''10/Oct/2023:13:55:36 +0000'', ''example.com'', ''127.0.0.1'', ''-'',
     ''GET /x HTTP/1.1'', ''200'', ''1024'', ''-'', ''curl/7.0'', ''0.002'', ''-'', ''-'']"

definition line_bad_bytes :: string where
  "line_bad_bytes = log_line [''10/Oct/2023:13:55:36 +0000'', ''example.com'', ''127.0.0.1'', ''-'',
     ''GET /x HTTP/1.1'', ''200'', ''--'', ''-'', ''curl/7.0'', ''0.002'', ''-'', ''-'']"

definition line_no_status :: string where
  "line_no_status = log_line [''10/Oct/2023:13:55:36 +0000'', ''example.com'', ''127.0.0.1'', ''-'',
     ''GET /x HTTP/1.1'', ''-'', ''1024'', ''-'', ''curl/7.0'', ''0.002'', ''-'', ''-'']"

definition line_empty_referer :: string where
  "line_empty_referer = log_line [''10/Oct/2023:13:55:36 +0000'', ''example.com'', ''127.0.0.1'', ''-'',
     ''GET /x HTTP/1.1'', ''200'', ''1024'', [], ''curl/7.0'', ''0.002'', ''-'', ''-'']"

definition never_parses :: "string \<Rightarrow> unit option" where
  "never_parses s = None"


text \<open>
  Worlds to run a pass in: an empty table with a given budget, a state file holding an
  inode and an offset, the rotated-out file (inode 7, read up to \<open>old_offset\<close>, the end
  of its first line) and the active file (inode 8). \<open>row_ok\<close> and \<open>row_other\<close> are
  the rows of \<open>line_ok\<close> and \<open>line_other\<close>.
\<close>

definition empty_db :: "nat option \<Rightarrow> unit conn" where
  "empty_db b = \<lparr>table = [], txn = [], budget = b\<rparr>"

definition state_at :: "int \<Rightarrow> int \<Rightarrow> json" where
  "state_at i n = JObj [(''inode'', JInt i), (''offset'', JInt n)]"





definition row_ok :: "unit log_row" where
  "row_ok = \<lparr>id = sha1_hexdigest (strip line_ok), time_local = None,
     host = ''example.com '', remote_addr = ''127.0.0.1 '', remote_user = Some ''- '',
     request = Some ''GET /x HTTP/1.1'', status = Some 200, body_bytes_sent = 1024,
     http_referer = None, http_user_agent = Some ''curl/7.0'', request_time = 1 / 500,
     upstream_response_time = 0, gzip_ratio = 0\<rparr>"




section \<open>Properties of the store and of process_file\<close>

lemma emitted_Nil: "emitted sp [] = []"
  by (simp add: emitted_def map_filter_simps)

lemma emitted_Cons:
  "emitted sp (l # ls) =
     (case line_record sp l of Inr (Some row) \<Rightarrow> row # emitted sp ls | _ \<Rightarrow> emitted sp ls)"
  by (simp add: emitted_def map_filter_simps split: sum.splits option.splits)

lemma insert_all_Nil: "insert_all rows [] = rows"
  by (simp add: insert_all_def)

lemma insert_all_Cons: "insert_all rows (r # rs) = insert_all (insert_ignore r rows) rs"
  by (simp add: insert_all_def)

lemma insert_all_append: "insert_all rows (xs @ ys) = insert_all (insert_all rows xs) ys"
  by (simp add: insert_all_def)

lemma insert_lines_ok:
  "insert_lines sp ls c = (Inr u, c1) \<Longrightarrow>
     txn c1 = insert_all (txn c) (emitted sp ls) \<and> table c1 = table c"
proof (induction ls arbitrary: c)
  case Nil
  then show ?case by (simp add: emitted_Nil insert_all_Nil)
next
  case (Cons l ls)
  show ?case
  proof (cases "line_record sp l")
    case (Inl e)
    with Cons.prems show ?thesis by simp
  next
    case (Inr ro)
    show ?thesis
    proof (cases ro)
      case None
      with Inr Cons show ?thesis by (simp add: emitted_Cons)
    next
      case (Some row)
      show ?thesis
      proof (cases "budget c = Some 0")
        case True
        with Inr Some Cons.prems show ?thesis by (simp add: execute_insert_def)
      next
        case False
        let ?c = "c\<lparr>txn := insert_ignore row (txn c), budget := spend (budget c)\<rparr>"
        from False Inr Some Cons.prems have "insert_lines sp ls ?c = (Inr u, c1)"
          by (simp add: execute_insert_def)
        from Cons.IH [OF this] Inr Some show ?thesis
          by (simp add: emitted_Cons insert_all_Cons)
      qed
    qed
  qed
qed

lemma insert_lines_fail_table:
  "insert_lines sp ls c = (Inl e, c1) \<Longrightarrow> table c1 = table c"
proof (induction ls arbitrary: c)
  case Nil
  then show ?case by simp
next
  case (Cons l ls)
  then show ?case
    by (auto simp: execute_insert_def split: sum.splits option.splits if_splits)
qed

lemma process_file_ok:
  assumes "process_file sp txt start c = (Inr n, c1)"
  shows "0 \<le> start \<and> n = max start (int (length txt)) \<and>
         txn c1 = insert_all (txn c) (emitted sp (readlines [] (drop (nat start) txt))) \<and>
         table c1 = txn c1"
proof -
  from assms have s: "0 \<le> start"
    by (auto simp: process_file_def split: if_splits)
  obtain r c' where il: "insert_lines sp (readlines [] (drop (nat start) txt)) c = (r, c')"
    by (cases "insert_lines sp (readlines [] (drop (nat start) txt)) c") auto
  with assms s obtain u where r: "r = Inr u"
    by (cases r) (auto simp: process_file_def)
  from insert_lines_ok [OF il [unfolded r]]
  have t: "txn c' = insert_all (txn c) (emitted sp (readlines [] (drop (nat start) txt)))"
    by simp
  from assms s il r have "n = max start (int (length txt)) \<and> txn c1 = txn c' \<and> table c1 = txn c'"
    by (auto simp: process_file_def commit_def Let_def split: if_splits)
  with s t show ?thesis by simp
qed

lemma process_file_fail_table:
  "process_file sp txt start c = (Inl e, c1) \<Longrightarrow> table c1 = table c"
  by (auto simp: process_file_def commit_def Let_def split: if_splits prod.splits sum.splits
           dest: insert_lines_fail_table insert_lines_ok)


lemma ids_insert_ignore: "set (map id (insert_ignore r rows)) = insert (id r) (set (map id rows))"
  by (auto simp: insert_ignore_def)

lemma ids_insert_all: "set (map id (insert_all rows rs)) = set (map id rows) \<union> set (map id rs)"
proof (induction rs arbitrary: rows)
  case Nil
  then show ?case by (simp add: insert_all_Nil)
next
  case (Cons r rs)
  show ?case
    unfolding insert_all_Cons Cons.IH ids_insert_ignore by auto
qed

lemma insert_all_present:
  "set (map id rs) \<subseteq> set (map id rows) \<Longrightarrow> insert_all rows rs = rows"
proof (induction rs arbitrary: rows)
  case Nil
  then show ?case by (simp add: insert_all_Nil)
next
  case (Cons r rs)
  from Cons.prems have "insert_ignore r rows = rows"
    by (simp add: insert_ignore_def)
  with Cons show ?case by (simp add: insert_all_Cons)
qed

lemma insert_all_twice: "insert_all (insert_all rows rs) rs = insert_all rows rs"
  by (rule insert_all_present) (use ids_insert_all [of rows rs] in auto)

lemma distinct_insert_ignore:
  "distinct (map id rows) \<Longrightarrow> distinct (map id (insert_ignore r rows))"
  by (auto simp: insert_ignore_def)

lemma distinct_insert_all:
  "distinct (map id rows) \<Longrightarrow> distinct (map id (insert_all rows rs))"
proof (induction rs arbitrary: rows)
  case Nil
  then show ?case by (simp add: insert_all_Nil)
next
  case (Cons r rs)
  from Cons.IH [OF distinct_insert_ignore [OF Cons.prems]] show ?case
    by (simp add: insert_all_Cons)
qed

lemma insert_lines_no_raise:
  "insert_lines sp ls c = (Inr u, c1) \<Longrightarrow> l \<in> set ls \<Longrightarrow> line_record sp l \<noteq> Inl e"
proof (induction ls arbitrary: c)
  case Nil
  then show ?case by simp
next
  case (Cons x xs)
  then show ?case
    by (auto simp: execute_insert_def split: sum.splits option.splits if_splits)
qed

lemma insert_lines_healthy:
  "budget c = None \<Longrightarrow> (\<And>l e. l \<in> set ls \<Longrightarrow> line_record sp l \<noteq> Inl e) \<Longrightarrow>
     insert_lines sp ls c = (Inr (), c\<lparr>txn := insert_all (txn c) (emitted sp ls)\<rparr>)"
proof (induction ls arbitrary: c)
  case Nil
  then show ?case by (simp add: emitted_Nil insert_all_Nil)
next
  case (Cons x xs)
  have nr: "line_record sp x \<noteq> Inl e" for e using Cons.prems(2) [of x e] by simp
  have rest: "l \<in> set xs \<Longrightarrow> line_record sp l \<noteq> Inl e" for l e
    using Cons.prems(2) [of l e] by simp
  show ?case
  proof (cases "line_record sp x")
    case (Inl e)
    with nr [of e] show ?thesis by blast
  next
    case (Inr ro)
    show ?thesis
    proof (cases ro)
      case None
      with Inr Cons.IH [OF Cons.prems(1) rest] show ?thesis by (simp add: emitted_Cons)
    next
      case (Some row)
      let ?c = "c\<lparr>txn := insert_ignore row (txn c), budget := spend (budget c)\<rparr>"
      have b: "budget ?c = None" using Cons.prems(1) by (simp add: spend_def)
      from Cons.IH [OF b rest] Inr Some Cons.prems(1) show ?thesis
        by (simp add: emitted_Cons insert_all_Cons execute_insert_def spend_def)
    qed
  qed
qed

lemma process_file_healthy:
  assumes "budget c = None" and "0 \<le> start"
    and "\<And>l e. l \<in> set (readlines [] (drop (nat start) txt)) \<Longrightarrow> line_record sp l \<noteq> Inl e"
  shows "process_file sp txt start c =
           (Inr (max start (int (length txt))),
            c\<lparr>txn := insert_all (txn c) (emitted sp (readlines [] (drop (nat start) txt))),
              table := insert_all (txn c) (emitted sp (readlines [] (drop (nat start) txt)))\<rparr>)"
  using assms(1,2) insert_lines_healthy [OF assms(1), of "readlines [] (drop (nat start) txt)" sp, OF assms(3)]
  by (simp add: process_file_def commit_def spend_def Let_def)

lemma insert_lines_budget:
  "insert_lines sp ls c = (r, c1) \<Longrightarrow> budget c = None \<Longrightarrow> budget c1 = None"
proof (induction ls arbitrary: c)
  case Nil
  then show ?case by auto
next
  case (Cons x xs)
  show ?case
  proof (cases "line_record sp x")
    case (Inl e)
    with Cons.prems show ?thesis by auto
  next
    case (Inr ro)
    show ?thesis
    proof (cases ro)
      case None
      with Inr Cons show ?thesis by simp
    next
      case (Some row)
      let ?c = "c\<lparr>txn := insert_ignore row (txn c), budget := spend (budget c)\<rparr>"
      have b: "budget ?c = None" using Cons.prems(2) by (simp add: spend_def)
      from Inr Some Cons.prems have "insert_lines sp xs ?c = (r, c1)"
        by (simp add: execute_insert_def)
      from Cons.IH [OF this b] show ?thesis .
    qed
  qed
qed

lemma process_file_budget:
  assumes "process_file sp txt start c = (r, c1)" and "budget c = None"
  shows "budget c1 = None"
proof -
  obtain q c' where il: "insert_lines sp (readlines [] (drop (nat start) txt)) c = (q, c')"
    by (cases "insert_lines sp (readlines [] (drop (nat start) txt)) c") auto
  from insert_lines_budget [OF il assms(2)] have "budget c' = None" .
  with assms il show ?thesis
    by (auto simp: process_file_def commit_def spend_def Let_def split: if_splits sum.splits)
qed

section \<open>Properties of the pattern\<close>

lemma strip_prefix_Some: "strip_prefix l s = Some rest \<longleftrightarrow> s = l @ rest"
  by (induction l s rule: strip_prefix.induct) auto

lemma rep_Some:
  "rep gr cls m k acc s = Some r \<Longrightarrow>
     \<exists>v rest. s = v @ rest \<and> list_all cls v \<and> m \<le> length v \<and> k (rev v @ acc) rest = Some r"
proof (induction s arbitrary: m acc)
  case Nil
  then show ?case by (auto split: if_splits)
next
  case (Cons c cs)
  show ?case
  proof (cases "m = 0 \<and> k acc (c # cs) = Some r")
    case True
    then have "c # cs = [] @ (c # cs) \<and> list_all cls [] \<and> m \<le> length ([]::string) \<and>
               k (rev [] @ acc) (c # cs) = Some r"
      by simp
    then show ?thesis by blast
  next
    case False
    with Cons.prems have "cls c \<and> rep gr cls (m - 1) k (c # acc) cs = Some r"
      by (auto split: if_splits option.splits)
    then have c: "cls c" and "rep gr cls (m - 1) k (c # acc) cs = Some r"
      by simp_all
    from Cons.IH [OF this(2)] obtain v rest where
      v: "cs = v @ rest" "list_all cls v" "m - 1 \<le> length v" "k (rev v @ c # acc) rest = Some r"
      by blast
    with c have "c # cs = (c # v) @ rest \<and> list_all cls (c # v) \<and> m \<le> length (c # v) \<and>
                 k (rev (c # v) @ acc) rest = Some r"
      by auto
    then show ?thesis by blast
  qed
qed

lemma re_match_Lit:
  "re_match (Lit l # ps) s = Some d \<Longrightarrow> \<exists>rest. s = l @ rest \<and> re_match ps rest = Some d"
  by (auto simp: strip_prefix_Some split: option.splits)

lemma re_match_Rep:
  assumes "re_match (Rep g cls m gr # ps) s = Some d"
  shows "\<exists>v rest d'. s = v @ rest \<and> list_all cls v \<and> m \<le> length v \<and>
           re_match ps rest = Some d' \<and> d = add_group g v d'"
proof -
  from assms have "rep gr cls m (\<lambda>acc rest. case re_match ps rest of None \<Rightarrow> None
      | Some caps \<Rightarrow> Some (add_group g (rev acc) caps)) [] s = Some d"
    by simp
  from rep_Some [OF this]
  obtain v rest where v: "s = v @ rest" "list_all cls v" "m \<le> length v"
    and k: "(case re_match ps rest of None \<Rightarrow> None
             | Some caps \<Rightarrow> Some (add_group g (rev (rev v @ [])) caps)) = Some d"
    by blast
  from k obtain d' where "re_match ps rest = Some d'" "d = add_group g v d'"
    by (auto split: option.splits)
  with v show ?thesis by blast
qed

lemma re_match_names: "re_match ps s = Some d \<Longrightarrow> map fst d = group_names ps"
proof (induction ps arbitrary: s d)
  case Nil
  then show ?case by simp
next
  case (Cons p ps)
  show ?case
  proof (cases p)
    case (Lit l)
    from re_match_Lit [OF Cons.prems [unfolded Lit]] Cons.IH Lit show ?thesis by auto
  next
    case (Rep g cls m gr)
    from re_match_Rep [OF Cons.prems [unfolded Rep]] obtain v rest d' where
      "re_match ps rest = Some d'" "d = add_group g v d'" by blast
    with Cons.IH Rep show ?thesis by (cases g) (auto simp: add_group_def)
  qed
qed

lemma re_match_group:
  "re_match ps s = Some d \<Longrightarrow> (g, v) \<in> set d \<Longrightarrow>
     \<exists>cls m gr. Rep (Some g) cls m gr \<in> set ps \<and> list_all cls v \<and> m \<le> length v"
proof (induction ps arbitrary: s d)
  case Nil
  then show ?case by simp
next
  case (Cons p ps)
  show ?case
  proof (cases p)
    case (Lit l)
    from re_match_Lit [OF Cons.prems(1) [unfolded Lit]] Cons.IH Cons.prems(2) show ?thesis
      by (metis list.set_intros(2))
  next
    case (Rep g' cls m gr)
    from re_match_Rep [OF Cons.prems(1) [unfolded Rep]] obtain w rest d' where
      w: "list_all cls w" "m \<le> length w" "re_match ps rest = Some d'" "d = add_group g' w d'"
      by blast
    show ?thesis
    proof (cases "(g, v) \<in> set d'")
      case True
      from Cons.IH [OF w(3) True] show ?thesis by (metis list.set_intros(2))
    next
      case False
      with w(4) Cons.prems(2) have "g' = Some g \<and> w = v"
        by (auto simp: add_group_def split: option.splits)
      with w Rep show ?thesis by (metis list.set_intros(1))
    qed
  qed
qed

lemma scan_append: "scan l cls s \<Longrightarrow> scan l cls (pre @ s)"
  by (induction pre) auto

lemma scan_here: "cls c \<Longrightarrow> scan l cls (l @ c # rest)"
proof (cases "l @ c # rest")
  case Nil
  then show ?thesis by simp
next
  case (Cons x xs)
  assume "cls c"
  moreover have "strip_prefix l (l @ c # rest) = Some (c # rest)"
    by (simp add: strip_prefix_Some)
  ultimately show ?thesis unfolding Cons [symmetric]
    by (metis Cons scan.simps(2) list.simps(5) option.simps(5))
qed

lemma re_match_scan:
  "re_match (ps1 @ Lit l # Rep g cls (Suc m) gr # ps2) s = Some d \<Longrightarrow> scan l cls s"
proof (induction ps1 arbitrary: s d)
  case Nil
  from re_match_Lit [OF Nil [unfolded append_Nil]] obtain rest where
    r: "s = l @ rest" "re_match (Rep g cls (Suc m) gr # ps2) rest = Some d" by blast
  from re_match_Rep [OF r(2)] obtain v rest' where v: "rest = v @ rest'" "list_all cls v" "Suc m \<le> length v"
    by blast
  then obtain c v' where "v = c # v'" by (cases v) auto
  with v r show ?case by (simp add: scan_here)
next
  case (Cons p ps1)
  show ?case
  proof (cases p)
    case (Lit l')
    from re_match_Lit [OF Cons.prems [unfolded Lit append_Cons]] Cons.IH show ?thesis
      by (metis scan_append)
  next
    case (Rep g' cls' m' gr')
    from re_match_Rep [OF Cons.prems [unfolded Rep append_Cons]] Cons.IH show ?thesis
      by (metis scan_append)
  qed
qed

section \<open>Properties of main\<close>



lemma setitem_ok:
  "subscript st k = Inr v \<Longrightarrow> \<exists>st'. setitem st k' x = Inr st'"
  by (auto simp: setitem_def subscript_def split: json.splits)












section \<open>Properties of a record\<close>

lemma digit_not_sign: "py_isdigit c \<Longrightarrow> c \<noteq> CHR ''-'' \<and> c \<noteq> CHR ''+''"
  by (auto simp: py_isdigit_def)

lemma py_int_digits:
  assumes "v \<noteq> []" and "list_all py_isdigit v"
  shows "to_nullable_int (Some v) = Inr (Some (int (digits_value v)))"
proof -
  from assms obtain c r where v: "v = c # r" by (cases v) auto
  with assms(2) have c: "py_isdigit c" by simp
  from digit_not_sign [OF c] v have s: "split_sign v = (False, v)"
    by (simp add: split_sign_def)
  from digit_not_sign [OF c] v have "v \<noteq> ''-''" by auto
  with assms s show ?thesis
    by (simp add: to_nullable_int_def py_int_def bind_res_def)
qed

lemma LOG_PATTERN_names:
  "group_names LOG_PATTERN =
     [''time_local'', ''host'', ''remote_addr'', ''remote_user'', ''request'', ''status'',
      ''body_bytes_sent'', ''http_referer'', ''http_user_agent'', ''request_time'',
      ''upstream_response_time'', ''gzip_ratio'']"
  by (simp add: LOG_PATTERN_def ws_def)

lemma LOG_PATTERN_status:
  "Rep (Some ''status'') cls m gr \<in> set LOG_PATTERN \<Longrightarrow> cls = py_isdigit \<and> m = 1"
  by (simp add: LOG_PATTERN_def ws_def)

lemma status_group:
  assumes "re_match LOG_PATTERN s = Some d"
  shows "\<exists>v. map_of d ''status'' = Some v \<and> v \<noteq> [] \<and> list_all py_isdigit v"
proof -
  from re_match_names [OF assms] have n: "''status'' \<in> set (map fst d)"
    by (simp add: LOG_PATTERN_names)
  then obtain v where v: "map_of d ''status'' = Some v"
    by (cases "map_of d ''status''") (auto simp: map_of_eq_None_iff)
  then have "(''status'', v) \<in> set d" by (rule map_of_SomeD)
  from re_match_group [OF assms this] LOG_PATTERN_status
  have "list_all py_isdigit v \<and> 1 \<le> length v" by blast
  with v show ?thesis by auto
qed

lemma line_record_Some:
  assumes "line_record sp raw = Inr (Some row)"
  shows "strip raw \<noteq> [] \<and> (\<exists>d. re_match LOG_PATTERN (strip raw) = Some d \<and>
           make_row sp (strip raw) d = Inr row)"
  using assms
  by (auto simp: line_record_def Let_def bind_res_def split: if_splits option.splits sum.splits)

lemma make_row_fields:
  assumes "make_row sp line d = Inr row"
  shows "id row = sha1_hexdigest line \<and> to_nullable_int (map_of d ''status'') = Inr (status row)"
  using assms
  by (auto simp: make_row_def Let_def bind_res_def split: sum.splits)

section \<open>The sample lines\<close>

lemma match_bad_bytes:
  "re_match LOG_PATTERN (strip line_bad_bytes) =
     Some [(''time_local'', ''10/Oct/2023:13:55:36 +0000''),
   (''host'', ''example.com ''), (''remote_addr'', ''127.0.0.1 ''),
   (''remote_user'', ''- ''), (''request'', ''GET /x HTTP/1.1''),
   (''status'', ''200''), (''body_bytes_sent'', ''--''),
   (''http_referer'', ''-''), (''http_user_agent'', ''curl/7.0''),
   (''request_time'', ''0.002''), (''upstream_response_time'', ''-''),
   (''gzip_ratio'', ''-'')]"
  by code_simp

lemma strip_bad_bytes: "strip line_bad_bytes \<noteq> []"
  by code_simp

lemma int_200: "to_nullable_int (Some ''200'') = Inr (Some 200)"
  by code_simp

lemma int_1024: "to_nullable_int (Some ''1024'') = Inr (Some 1024)"
  by code_simp

lemma int_dashes: "to_nullable_int (Some ''--'') = Inl ValueError"
  by code_simp

lemma float_0002: "to_nullable_float (Some ''0.002'') = Inr (Some (1 / 500))"
  by code_simp

lemma float_dash: "to_nullable_float (Some ''-'') = Inr None"
  by code_simp

lemma readlines_bad_bytes: "readlines [] line_bad_bytes = [line_bad_bytes]"
  by code_simp

lemma match_empty_referer:
  "re_match LOG_PATTERN (strip line_empty_referer) =
     Some [(''time_local'', ''10/Oct/2023:13:55:36 +0000''),
   (''host'', ''example.com ''), (''remote_addr'', ''127.0.0.1 ''),
   (''remote_user'', ''- ''), (''request'', ''GET /x HTTP/1.1''),
   (''status'', ''200''), (''body_bytes_sent'', ''1024''),
   (''http_referer'', []), (''http_user_agent'', ''curl/7.0''),
   (''request_time'', ''0.002''), (''upstream_response_time'', ''-''),
   (''gzip_ratio'', ''-'')]"
  by code_simp

lemma strip_empty_referer: "strip line_empty_referer \<noteq> []"
  by code_simp

lemma LOG_PATTERN_split:
  "LOG_PATTERN = take 22 LOG_PATTERN @ Lit (''Status='' @ [CHR 0x22]) #
     Rep (Some ''status'') py_isdigit (Suc 0) True # drop 24 LOG_PATTERN"
  by (simp add: LOG_PATTERN_def)

lemma LOG_PATTERN_scan:
  assumes "re_match LOG_PATTERN s = Some d"
  shows "scan (''Status='' @ [CHR 0x22]) py_isdigit s"
  using re_match_scan [of "take 22 LOG_PATTERN" "''Status='' @ [CHR 0x22]" "Some ''status''"
      py_isdigit 0 True "drop 24 LOG_PATTERN" s d] assms LOG_PATTERN_split
  by simp

lemma scan_no_status: "\<not> scan (''Status='' @ [CHR 0x22]) py_isdigit (strip line_no_status)"
  by code_simp

lemma strip_no_status: "strip line_no_status \<noteq> []"
  by code_simp

section \<open>Sample runs\<close>

lemma match_ok:
  "re_match LOG_PATTERN (strip line_ok) =
     Some [(''time_local'', ''10/Oct/2023:13:55:36 +0000''),
   (''host'', ''example.com ''), (''remote_addr'', ''127.0.0.1 ''),
   (''remote_user'', ''- ''), (''request'', ''GET /x HTTP/1.1''),
   (''status'', ''200''), (''body_bytes_sent'', ''1024''),
   (''http_referer'', ''-''), (''http_user_agent'', ''curl/7.0''),
   (''request_time'', ''0.002''), (''upstream_response_time'', ''-''),
   (''gzip_ratio'', ''-'')]"
  by code_simp

lemma strip_ok: "strip line_ok \<noteq> []"
  by code_simp





lemma line_ok_record: "line_record never_parses line_ok = Inr (Some row_ok)"
  by (simp add: line_record_def strip_ok match_ok make_row_def int_200 int_1024 float_0002
      float_dash bind_res_def dash_to_none_def getitem_def or_zero_def row_ok_def never_parses_def)




lemma readlines_twice: "readlines [] (line_ok @ line_ok) = [line_ok, line_ok]"
  by code_simp



lemma emitted_twice: "emitted never_parses [line_ok, line_ok] = [row_ok, row_ok]"
  by (simp add: emitted_Cons emitted_Nil line_ok_record)




lemma run_twice:
  "process_file never_parses (line_ok @ line_ok) 0 (empty_db None) =
     (Inr (int (length (line_ok @ line_ok))), \<lparr>table = [row_ok], txn = [row_ok], budget = None\<rparr>)"
proof -
  have b: "budget (empty_db None) = None" by (simp add: empty_db_def)
  have d: "drop (nat 0) (line_ok @ line_ok) = line_ok @ line_ok" by simp
  have nr: "line_record never_parses l \<noteq> Inl e"
    if "l \<in> set (readlines [] (drop (nat 0) (line_ok @ line_ok)))" for l e
    using that unfolding d readlines_twice by (auto simp: line_ok_record)
  have z: "(0::int) \<le> 0" by simp
  have mx: "max 0 (int (length (line_ok @ line_ok))) = int (length (line_ok @ line_ok))"
    by simp
  have i: "insert_all (txn (empty_db None)) [row_ok, row_ok] = [row_ok]"
    by (simp add: insert_all_def insert_ignore_def empty_db_def)
  have e: "empty_db None\<lparr>txn := [row_ok], table := [row_ok]\<rparr> =
             \<lparr>table = [row_ok], txn = [row_ok], budget = None\<rparr>"
    by (simp add: empty_db_def)
  from process_file_healthy [of "empty_db None" 0 "line_ok @ line_ok" never_parses, OF b z nr]
  show ?thesis unfolding d readlines_twice emitted_twice mx i e by blast
qed








lemma strip_trailing: "strip (butlast line_ok @ ''  '') = strip line_ok"
  by code_simp

lemma strip_butlast: "strip (butlast line_ok) = strip line_ok"
  by code_simp

lemma strip_is_butlast: "strip line_ok = butlast line_ok"
  by code_simp

lemma differ: "butlast line_ok @ ''  '' \<noteq> butlast line_ok"
  by simp

section \<open>The claims\<close>



text \<open>
  Claim C2. After a pass over a file has completed against a store that answers,
  ingesting the same content again from the same offset returns the same offset and
  leaves the connection, hence the table, as it was; inserting a row whose id the table
  already holds changes nothing and does not raise; and ids stay unique in the table.
\<close>

theorem ingest_twice_no_duplicates:
  assumes "process_file strptime txt start c = (Inr n, c1)"
    and "budget c = None"
    and "id row \<in> set (map id (txn c1))"
  shows "process_file strptime txt start c1 = (Inr n, c1) \<and>
         insert_ignore row (txn c1) = txn c1 \<and>
         execute_insert row c1 = (Inr (), c1) \<and>
         (distinct (map id (txn c)) \<longrightarrow> distinct (map id (table c1)))"
proof -
  let ?ls = "readlines [] (drop (nat start) txt)"
  from process_file_ok [OF assms(1)] have
    ok: "0 \<le> start" "n = max start (int (length txt))"
        "txn c1 = insert_all (txn c) (emitted strptime ?ls)" "table c1 = txn c1"
    by simp_all
  have b1: "budget c1 = None" by (rule process_file_budget [OF assms(1,2)])
  have nr: "line_record strptime l \<noteq> Inl e" if "l \<in> set ?ls" for l e
  proof -
    obtain r c' where il: "insert_lines strptime ?ls c = (r, c')"
      by (cases "insert_lines strptime ?ls c") auto
    with assms(1) ok(1) obtain u where "r = Inr u"
      by (cases r) (auto simp: process_file_def)
    with il insert_lines_no_raise that show ?thesis by blast
  qed
  have twice: "insert_all (txn c1) (emitted strptime ?ls) = txn c1"
    unfolding ok(3) by (rule insert_all_twice)
  have "process_file strptime txt start c1 =
          (Inr (max start (int (length txt))),
           c1\<lparr>txn := insert_all (txn c1) (emitted strptime ?ls),
              table := insert_all (txn c1) (emitted strptime ?ls)\<rparr>)"
    by (rule process_file_healthy [OF b1 ok(1)]) (erule nr)
  then have "process_file strptime txt start c1 =
          (Inr n, c1\<lparr>txn := txn c1, table := txn c1\<rparr>)"
    unfolding twice ok(2) .
  with ok(4) have again: "process_file strptime txt start c1 = (Inr n, c1)" by simp
  from assms(3) have noop: "insert_ignore row (txn c1) = txn c1"
    by (simp add: insert_ignore_def)
  with b1 have ex: "execute_insert row c1 = (Inr (), c1)"
    by (simp add: execute_insert_def spend_def)
  from ok(3,4) distinct_insert_all
  have "distinct (map id (txn c)) \<longrightarrow> distinct (map id (table c1))" by metis
  with again noop ex show ?thesis by blast
qed

text \<open>
  Witness for C2: a file that holds the sample line twice is ingested from offset 0 into
  an empty table, which then holds one row; ingesting it again changes nothing, and
  inserting a row with the same id and another status leaves the stored row in place.
\<close>

theorem ingest_twice_no_duplicates_witness:
  "process_file never_parses (line_ok @ line_ok) 0 (empty_db None) =
     (Inr (int (length (line_ok @ line_ok))), \<lparr>table = [row_ok], txn = [row_ok], budget = None\<rparr>) \<and>
   budget (empty_db None) = None \<and>
   id (row_ok\<lparr>status := Some 500\<rparr>) \<in>
     set (map id (txn \<lparr>table = [row_ok], txn = [row_ok], budget = None\<rparr>)) \<and>
   distinct (map id (txn (empty_db None))) \<and>
   process_file never_parses (line_ok @ line_ok) 0
       \<lparr>table = [row_ok], txn = [row_ok], budget = None\<rparr> =
     (Inr (int (length (line_ok @ line_ok))), \<lparr>table = [row_ok], txn = [row_ok], budget = None\<rparr>) \<and>
   insert_ignore (row_ok\<lparr>status := Some 500\<rparr>) [row_ok] = [row_ok] \<and>
   execute_insert (row_ok\<lparr>status := Some 500\<rparr>)
       \<lparr>table = [row_ok], txn = [row_ok], budget = None\<rparr> =
     (Inr (), \<lparr>table = [row_ok], txn = [row_ok], budget = None\<rparr>) \<and>
   distinct (map id (table \<lparr>table = [row_ok], txn = [row_ok], budget = None\<rparr>))"
proof -
  have h2: "budget (empty_db None) = None" by (simp add: empty_db_def)
  have h3: "id (row_ok\<lparr>status := Some 500\<rparr>) \<in>
              set (map id (txn \<lparr>table = [row_ok], txn = [row_ok], budget = None\<rparr>))"
    by simp
  have h4: "distinct (map id (txn (empty_db None)))" by (simp add: empty_db_def)
  from ingest_twice_no_duplicates [OF run_twice h2 h3] run_twice h2 h3 h4
  show ?thesis by simp
qed



text \<open>
  Claim C4 says that no line content makes a pass raise. The code converts
  \<open>body_bytes_sent\<close>, \<open>request_time\<close>, \<open>upstream_response_time\<close> and
  \<open>gzip_ratio\<close> with \<open>int\<close> and \<open>float\<close> outside any \<open>try\<close>, while the pattern
  admits values such as \<open>--\<close> that they reject: the sample line with
  \<open>BodyBytesSent="--"\<close> matches the pattern, \<open>int\<close> raises \<open>ValueError\<close>, the
  exception leaves \<open>process_file\<close>, and nothing of the pass is committed.
\<close>

theorem numeric_conversion_raises:
  "line_record strptime line_bad_bytes = Inl ValueError \<and>
   fst (process_file strptime line_bad_bytes 0 c) = Inl ValueError \<and>
   table (snd (process_file strptime line_bad_bytes 0 c)) = table c"
  by (simp add: process_file_def readlines_bad_bytes line_record_def strip_bad_bytes
      match_bad_bytes make_row_def int_200 int_dashes bind_res_def)

text \<open>
  Claim C5, as amended. A line that yields a record matched \<open>LOG_PATTERN\<close> with a
  group \<open>status\<close> of one digit or more (so the line contains \<open>Status="\<close> followed
  by a digit), and the status of the record is the number these digits write: it is
  never null and never a default. \<open>to_nullable_int\<close> does map a dash, an empty value
  and an absent one to null, but no matched line brings it one for the status.
\<close>

theorem status_never_null:
  assumes "line_record strptime raw = Inr (Some row)"
  shows "\<exists>d v. re_match LOG_PATTERN (strip raw) = Some d \<and> map_of d ''status'' = Some v \<and>
           v \<noteq> [] \<and> list_all py_isdigit v \<and> status row = Some (int (digits_value v)) \<and>
           scan (''Status='' @ [CHR 0x22]) py_isdigit (strip raw) \<and>
           to_nullable_int (Some ''-'') = Inr None \<and> to_nullable_int (Some []) = Inr None \<and>
           to_nullable_int None = Inr None"
proof -
  from line_record_Some [OF assms] obtain d where
    d: "re_match LOG_PATTERN (strip raw) = Some d" "make_row strptime (strip raw) d = Inr row"
    by blast
  from status_group [OF d(1)] obtain v where
    v: "map_of d ''status'' = Some v" "v \<noteq> []" "list_all py_isdigit v" by blast
  from make_row_fields [OF d(2)] v(1) py_int_digits [OF v(2,3)]
  have "status row = Some (int (digits_value v))" by simp
  with d(1) v LOG_PATTERN_scan [OF d(1)] show ?thesis
    by (auto simp: to_nullable_int_def)
qed

text \<open>Witness for C5: the sample line yields a record with status 200.\<close>

theorem status_never_null_witness:
  "line_record never_parses line_ok = Inr (Some row_ok) \<and> status row_ok = Some 200 \<and>
   (\<exists>d v. re_match LOG_PATTERN (strip line_ok) = Some d \<and> map_of d ''status'' = Some v \<and>
      v \<noteq> [] \<and> list_all py_isdigit v \<and> status row_ok = Some (int (digits_value v)) \<and>
      scan (''Status='' @ [CHR 0x22]) py_isdigit (strip line_ok))"
  using status_never_null [OF line_ok_record] line_ok_record
  by (auto simp: row_ok_def)

text \<open>
  Claim C5 as stated fails: the sample line with \<open>Status="-"\<close> does not match
  \<open>LOG_PATTERN\<close>, whose group \<open>status\<close> is \<open>\d+\<close>, so the line yields no record.
\<close>

theorem placeholder_status_counterexample:
  "line_record never_parses line_no_status = Inr None"
proof -
  have "re_match LOG_PATTERN (strip line_no_status) = None"
    using LOG_PATTERN_scan [of "strip line_no_status"] scan_no_status
    by (cases "re_match LOG_PATTERN (strip line_no_status)") auto
  then show ?thesis by (simp add: line_record_def strip_no_status)
qed

text \<open>
  Claim C6 says that an empty value in \<open>remote_user\<close>, \<open>request\<close>, \<open>Referer\<close> or
  \<open>UserAgent\<close> yields null. The loop commented "empty strings to None" compares with
  \<open>'-'\<close> only: the sample line with \<open>Referer=""\<close> yields a record whose
  \<open>http_referer\<close> is the empty string. (In the same record \<open>remote_user\<close> is the
  dash with the space that follows it in the line, which the group takes in.)
\<close>

theorem empty_field_kept:
  "line_record strptime line_empty_referer =
     Inr (Some \<lparr>id = sha1_hexdigest (strip line_empty_referer),
       time_local = strptime ''10/Oct/2023:13:55:36 +0000'',
       host = ''example.com '', remote_addr = ''127.0.0.1 '', remote_user = Some ''- '',
       request = Some ''GET /x HTTP/1.1'', status = Some 200, body_bytes_sent = 1024,
       http_referer = Some [], http_user_agent = Some ''curl/7.0'', request_time = 1 / 500,
       upstream_response_time = 0, gzip_ratio = 0\<rparr>)"
  by (simp add: line_record_def strip_empty_referer match_empty_referer make_row_def
      int_200 int_1024 float_0002 float_dash bind_res_def dash_to_none_def getitem_def or_zero_def)

text \<open>
  Claim C7, as amended. The id of a record is the SHA-1 digest of the line after
  \<open>strip()\<close>, that is without its newline and without the whitespace around it, not
  of the line as the file holds it. Two rows with the same id collapse into one row of
  the table.
\<close>

theorem id_is_hash_of_stripped_line:
  assumes "line_record strptime raw = Inr (Some row)"
  shows "id row = sha1_hexdigest (strip raw) \<and>
         insert_ignore row (insert_ignore row rows) = insert_ignore row rows \<and>
         length (filter (\<lambda>r. id r = id row) (insert_all [] [row, row])) = 1"
proof -
  from line_record_Some [OF assms] make_row_fields have "id row = sha1_hexdigest (strip raw)"
    by blast
  then show ?thesis
    by (simp add: insert_ignore_def insert_all_def)
qed

text \<open>Witness for C7: the record of the sample line.\<close>

theorem id_is_hash_of_stripped_line_witness:
  "line_record never_parses line_ok = Inr (Some row_ok) \<and>
   id row_ok = sha1_hexdigest (strip line_ok) \<and>
   insert_ignore row_ok (insert_ignore row_ok []) = insert_ignore row_ok [] \<and>
   length (filter (\<lambda>r. id r = id row_ok) (insert_all [] [row_ok, row_ok])) = 1"
  using id_is_hash_of_stripped_line [OF line_ok_record, of "[]"] line_ok_record
  by auto

text \<open>
  Claim C7 as stated fails: the sample line without its newline, and the same line with
  two spaces after it, are different raw lines, and both get the digest of the first as
  their id.
\<close>

theorem id_of_raw_line_counterexample:
  "butlast line_ok @ ''  '' \<noteq> butlast line_ok \<and>
   map id (emitted never_parses [butlast line_ok @ ''  '']) = [sha1_hexdigest (butlast line_ok)] \<and>
   map id (emitted never_parses [butlast line_ok]) = [sha1_hexdigest (butlast line_ok)]"
proof -
  have a: "line_record never_parses (butlast line_ok @ ''  '') = line_record never_parses line_ok"
    by (simp add: line_record_def strip_trailing)
  have b: "line_record never_parses (butlast line_ok) = line_record never_parses line_ok"
    by (simp add: line_record_def strip_butlast)
  have i: "id row_ok = sha1_hexdigest (butlast line_ok)"
    by (simp add: row_ok_def strip_is_butlast)
  from a b i show ?thesis
    by (simp add: emitted_Cons emitted_Nil line_ok_record)
qed



text \<open>
  Claim C9, as amended. The state file is not replaced atomically: \<open>write_text\<close>
  truncates it and then writes it, so during the write it passes through a content that
  \<open>load_state\<close> reads as the fresh state before it holds the new state; when the write
  completes, the file holds the new state.
\<close>

theorem save_state_in_place:
  "map load_state (write_text_steps state) = [fresh_state, state] \<and> save_state state = Doc state"
  by (simp add: write_text_steps_def load_state_def save_state_def)

text \<open>
  Claim C9 as stated fails: with the state (inode 7, offset 10) on disk and the state
  (inode 7, offset 20) being saved, the file is first left truncated, which is neither
  the previous complete state nor the new one.
\<close>

theorem save_state_atomic_counterexample:
  "write_text_steps (state_at 7 20) ! 0 = Corrupt \<and> Corrupt \<noteq> Doc (state_at 7 10) \<and>
   Corrupt \<noteq> Doc (state_at 7 20)"
  by (simp add: write_text_steps_def)



end
